theory Spec2Isabelle
  imports Main "HOL-Library.Multiset"
begin

section \<open>Data model\<close>

text \<open>
  The writer of \<^verbatim>\<open>pkg/output/output.go\<close>. Go strings and byte slices are
  \<^typ>\<open>string\<close> (lists of 8-bit characters). The records follow the fields the code
  reads from \<^verbatim>\<open>clients.Response\<close> and \<^verbatim>\<open>clients.Options\<close>.
\<close>

datatype error =
    MarshalError
  | FileWriteError
  | StdoutWriteError
  | Wrapped string error

record FingerprintHash =
  MD5 :: string
  SHA1 :: string
  SHA256 :: string

record CertificateResponse =
  SubjectAN :: "string list"
  SubjectCN :: string
  SubjectOrg :: "string list"
  Expired :: bool
  SelfSigned :: bool
  FingerprintHash :: FingerprintHash

record Response =
  Host :: string
  Port :: string
  Version :: string
  Cipher :: string
  CertificateResponse :: CertificateResponse

text \<open>
  The fields of \<^verbatim>\<open>clients.Options\<close> that the writer reads. In the source three of
  them (\<^verbatim>\<open>Cipher\<close>, \<^verbatim>\<open>Expired\<close>, \<^verbatim>\<open>SelfSigned\<close>) have the name of a field
  of the response; here they are prefixed with \<open>opt\<close>.
\<close>

record Options =
  OutputFile :: string
  JSON :: bool
  NoColor :: bool
  RespOnly :: bool
  SAN :: bool
  CN :: bool
  SO :: bool
  TLSVersion :: bool
  optCipher :: bool
  optExpired :: bool
  optSelfSigned :: bool
  Hash :: string

text \<open>
  The file sink \<^verbatim>\<open>fileWriter\<close> is declared outside this file; the writer only calls
  its \<^verbatim>\<open>Write\<close> and \<^verbatim>\<open>Close\<close>. The model keeps the payload of every successful
  \<^verbatim>\<open>Write\<close> call and a flag that makes the sink fail.
\<close>

record fileWriter =
  payloads :: "string list"
  broken :: bool

definition fileWriter_Write :: "fileWriter \<Rightarrow> string \<Rightarrow> error option \<times> fileWriter" where
  "fileWriter_Write f data =
     (if broken f then (Some FileWriteError, f)
      else (None, f\<lparr>payloads := payloads f @ [data]\<rparr>))"

text \<open>Standard output: the bytes written so far, and a flag that makes writes fail.\<close>

record osFile =
  written :: string
  failing :: bool

definition os_Write :: "osFile \<Rightarrow> string \<Rightarrow> error option \<times> osFile" where
  "os_Write f data =
     (if failing f then (Some StdoutWriteError, f)
      else (None, f\<lparr>written := written f @ data\<rparr>))"

text \<open>
  What the code takes from outside the repository and the language runtime:
  \<^verbatim>\<open>strings.ToUpper\<close>, \<^verbatim>\<open>jsoniter.Marshal\<close>, and the order in which
  \<^verbatim>\<open>range\<close> visits the keys of a map (unspecified in Go), given the keys in
  insertion order.
\<close>

record env =
  ToUpper :: "string \<Rightarrow> string"
  Marshal :: "Response \<Rightarrow> error + string"
  rangeOrder :: "string list \<Rightarrow> string list"

text \<open>
  \<^verbatim>\<open>StandardWriter\<close>: \<open>aurora\<close> is the colour switch of the aurora instance
  (\<^verbatim>\<open>aurora.NewAurora(!options.NoColor)\<close>); \<open>outputFile\<close> is \<open>None\<close> for the nil
  pointer. The mutex has no counterpart in this sequential model.
\<close>

record StandardWriter =
  json :: bool
  aurora :: bool
  outputFile :: "fileWriter option"
  options :: Options

section \<open>Library functions\<close>

text \<open>\<^verbatim>\<open>errors.Wrap\<close> of \<^verbatim>\<open>github.com/pkg/errors\<close>: a nil error stays nil.\<close>

fun Wrap :: "error option \<Rightarrow> string \<Rightarrow> error option" where
  "Wrap None message = None"
| "Wrap (Some err) message = Some (Wrapped message err)"

text \<open>\<^verbatim>\<open>bytes.TrimSuffix(data, []byte("\n"))\<close>: one trailing newline is removed.\<close>

definition newline :: char where
  "newline = CHR 0x0A"

definition TrimSuffix_nl :: "string \<Rightarrow> string" where
  "TrimSuffix_nl data =
     (if data \<noteq> [] \<and> last data = newline then butlast data else data)"

text \<open>
  \<^verbatim>\<open>strings.Replace(value, "*.", "", -1)\<close>: the occurrences are found from the left,
  each search starting after the previous occurrence.
\<close>

fun Replace_wildcard :: "string \<Rightarrow> string" where
  "Replace_wildcard [] = []"
| "Replace_wildcard [c] = [c]"
| "Replace_wildcard (c # d # rest) =
     (if c = CHR ''*'' \<and> d = CHR ''.'' then Replace_wildcard rest
      else c # Replace_wildcard (d # rest))"

text \<open>\<^verbatim>\<open>strings.Split(s, ",")\<close>: the pieces between the commas, empty ones included.\<close>

fun Split_comma :: "string \<Rightarrow> string list" where
  "Split_comma [] = [[]]"
| "Split_comma (c # cs) =
     (if c = CHR '','' then [] # Split_comma cs
      else (case Split_comma cs of
              [] \<Rightarrow> [[c]]
            | piece # pieces \<Rightarrow> (c # piece) # pieces))"

text \<open>\<^verbatim>\<open>strings.Join(elems, ",")\<close>.\<close>

fun Join_comma :: "string list \<Rightarrow> string" where
  "Join_comma [] = []"
| "Join_comma [x] = x"
| "Join_comma (x # y # rest) = x @ '','' @ Join_comma (y # rest)"

text \<open>
  The aurora colours. With colours on, \<^verbatim>\<open>String()\<close> of a coloured value is
  \<^verbatim>\<open>"\033[" + code + "m" + value + "\033[0m"\<close>; with colours off it is the value.
\<close>

definition ESC :: char where
  "ESC = CHR 0x1B"

definition colorize :: "bool \<Rightarrow> string \<Rightarrow> string \<Rightarrow> string" where
  "colorize enabled code v =
     (if enabled then ESC # CHR ''['' # code @ ''m'' @ v @ ESC # ''[0m'' else v)"

definition Cyan :: "bool \<Rightarrow> string \<Rightarrow> string" where
  "Cyan a v = colorize a ''36'' v"

definition BrightYellow :: "bool \<Rightarrow> string \<Rightarrow> string" where
  "BrightYellow a v = colorize a ''93'' v"

definition Blue :: "bool \<Rightarrow> string \<Rightarrow> string" where
  "Blue a v = colorize a ''34'' v"

definition Green :: "bool \<Rightarrow> string \<Rightarrow> string" where
  "Green a v = colorize a ''32'' v"

definition Red :: "bool \<Rightarrow> string \<Rightarrow> string" where
  "Red a v = colorize a ''31'' v"

definition Yellow :: "bool \<Rightarrow> string \<Rightarrow> string" where
  "Yellow a v = colorize a ''33'' v"

definition BrightMagenta :: "bool \<Rightarrow> string \<Rightarrow> string" where
  "BrightMagenta a v = colorize a ''95'' v"

section \<open>The escape-sequence stripper\<close>

text \<open>
  \<^verbatim>\<open>decolorizerRegex.ReplaceAll(data, []byte(""))\<close> with the expression
  \<^verbatim>\<open>\x1B\[[0-9;]*[a-zA-Z]\<close>. The classes \<^verbatim>\<open>[0-9;]\<close> and \<^verbatim>\<open>[a-zA-Z]\<close> are
  disjoint, so at a position holding ESC and an opening bracket the only possible match
  takes the whole run of digits and semicolons and then needs a letter. Matches are
  replaced from the left; the search resumes after a match, and one byte further where
  there was none.
\<close>

definition is_param :: "char \<Rightarrow> bool" where
  "is_param c = (c \<in> set ''0123456789;'')"

definition is_letter :: "char \<Rightarrow> bool" where
  "is_letter c =
     (c \<in> set ''abcdefghijklmnopqrstuvwxyzABCDEFGHIJKLMNOPQRSTUVWXYZ'')"

text \<open>The rest of the input after a match at its head, if there is one.\<close>

definition match_at_head :: "string \<Rightarrow> string option" where
  "match_at_head s =
     (case s of
        c # d # rest \<Rightarrow>
          (if c = ESC \<and> d = CHR ''['' then
             (case dropWhile is_param rest of
                [] \<Rightarrow> None
              | l # rest' \<Rightarrow> if is_letter l then Some rest' else None)
           else None)
      | _ \<Rightarrow> None)"

function decolorize :: "string \<Rightarrow> string" where
  "decolorize [] = []"
| "decolorize (c # cs) =
     (case match_at_head (c # cs) of
        Some rest \<Rightarrow> decolorize rest
      | None \<Rightarrow> c # decolorize cs)"
  by pat_completeness auto
termination
proof (relation "measure length")
  show "wf (measure length)" by simp
next
  fix c :: char and cs rest :: string
  assume m: "match_at_head (c # cs) = Some rest"
  then obtain d tl l where cs: "cs = d # tl" and d: "dropWhile is_param tl = l # rest"
    by (auto simp: match_at_head_def split: list.splits if_splits)
  have "length (dropWhile is_param tl) \<le> length tl"
    by (rule length_dropWhile_le)
  with d cs show "(rest, c # cs) \<in> measure length" by simp
next
  fix c :: char and cs :: string
  show "(cs, c # cs) \<in> measure length" by simp
qed

text \<open>Whether a byte string contains a match of the expression anywhere.\<close>

fun has_escape_sequence :: "string \<Rightarrow> bool" where
  "has_escape_sequence [] = False"
| "has_escape_sequence (c # cs) =
     (match_at_head (c # cs) \<noteq> None \<or> has_escape_sequence cs)"

section \<open>The name normaliser\<close>

text \<open>
  \<^verbatim>\<open>uniqueNormalizeCertNames\<close>. The map \<^verbatim>\<open>unique\<close> has values of the empty struct
  type, so it is its list of keys, in insertion order; the second loop appends the keys
  in the order \<^verbatim>\<open>range\<close> visits them.
\<close>

fun collect_unique :: "string list \<Rightarrow> string list \<Rightarrow> string list" where
  "collect_unique unique [] = unique"
| "collect_unique unique (v # rest) =
     (let replaced = Replace_wildcard v
      in if replaced \<notin> set unique then collect_unique (unique @ [replaced]) rest
         else collect_unique unique rest)"

definition uniqueNormalizeCertNames :: "env \<Rightarrow> string list \<Rightarrow> string list" where
  "uniqueNormalizeCertNames e names = rangeOrder e (collect_unique [] names)"

text \<open>
  Go visits every key of a map exactly once in a \<^verbatim>\<open>range\<close> loop, in no particular
  order.
\<close>

definition visits_each_key_once :: "env \<Rightarrow> bool" where
  "visits_each_key_once e = (\<forall>keys. mset (rangeOrder e keys) = mset keys)"

text \<open>
  The words of the specification, "remove every occurrence of the substring": position
  \<open>i\<close> starts an occurrence when it holds the star and the next one the dot; the
  positions of an occurrence are dropped, all others are kept in order.
\<close>

definition occurrence_at :: "string \<Rightarrow> nat \<Rightarrow> bool" where
  "occurrence_at s i = (Suc i < length s \<and> s ! i = CHR ''*'' \<and> s ! Suc i = CHR ''.'')"

definition in_occurrence :: "string \<Rightarrow> nat \<Rightarrow> bool" where
  "in_occurrence s i = (occurrence_at s i \<or> (0 < i \<and> occurrence_at s (i - 1)))"

definition without_occurrences :: "string \<Rightarrow> string" where
  "without_occurrences s =
     map (\<lambda>i. s ! i) (filter (\<lambda>i. \<not> in_occurrence s i) [0..<length s])"

section \<open>The record formatter\<close>

text \<open>\<^verbatim>\<open>bytes.Buffer\<close> is the string written so far.\<close>

definition WriteString :: "string \<Rightarrow> string \<Rightarrow> string" where
  "WriteString builder s = builder @ s"

definition Reset :: "string \<Rightarrow> string" where
  "Reset builder = []"

text \<open>The loop over \<^verbatim>\<open>uniqueNames\<close>.\<close>

fun write_names :: "StandardWriter \<Rightarrow> string \<Rightarrow> string list \<Rightarrow> string \<Rightarrow> string" where
  "write_names w outputPrefix [] builder = builder"
| "write_names w outputPrefix (name # rest) builder =
     write_names w outputPrefix rest
       (if RespOnly (options w) then
          (let builder = WriteString builder name
           in WriteString builder [newline])
        else
          (let builder = WriteString builder outputPrefix;
               builder = WriteString builder '' ['';
               builder = WriteString builder (Cyan (aurora w) name)
           in WriteString builder (CHR '']'' # [newline])))"

text \<open>
  The \<^verbatim>\<open>switch\<close> on the algorithm name; \<^verbatim>\<open>value\<close> keeps its zero value, the
  empty string, when no case applies.
\<close>

definition hash_value :: "CertificateResponse \<Rightarrow> string \<Rightarrow> string" where
  "hash_value cert hash =
     (if hash = ''md5'' then MD5 (FingerprintHash cert)
      else if hash = ''sha1'' then SHA1 (FingerprintHash cert)
      else if hash = ''sha256'' then SHA256 (FingerprintHash cert)
      else [])"

text \<open>The loop over \<^verbatim>\<open>hashOpts\<close>.\<close>

fun write_hashes :: "StandardWriter \<Rightarrow> CertificateResponse \<Rightarrow> string list \<Rightarrow> string \<Rightarrow> string" where
  "write_hashes w cert [] builder = builder"
| "write_hashes w cert (hash # rest) builder =
     write_hashes w cert rest
       (let builder = WriteString builder '' ['';
            v = hash_value cert hash;
            builder = WriteString builder (BrightMagenta (aurora w) v)
        in WriteString builder '']'')"

text \<open>
  \<^verbatim>\<open>formatStandard\<close> returns the bytes and a nil error; the pair keeps the
  source's two results.
\<close>

definition formatStandard :: "env \<Rightarrow> StandardWriter \<Rightarrow> Response \<Rightarrow> string \<times> error option" where
  "formatStandard e w output =
     (let builder = [];
          builder = (if \<not> RespOnly (options w) then
                       (let builder = WriteString builder (Host output);
                            builder = WriteString builder '':''
                        in WriteString builder (Port output))
                     else builder);
          outputPrefix = builder;
          builder = Reset builder;
          cert = CertificateResponse output;
          names = [];
          names = (if SAN (options w) then names @ SubjectAN cert else names);
          names = (if CN (options w) then names @ [SubjectCN cert] else names);
          uniqueNames = uniqueNormalizeCertNames e names;
          builder = (if length uniqueNames > 0
                     then write_names w outputPrefix uniqueNames builder else builder);
          builder = (if \<not> SAN (options w) \<and> \<not> CN (options w)
                     then WriteString builder outputPrefix else builder);
          builder = (if SO (options w) \<and> length (SubjectOrg cert) > 0 then
                       (let builder = WriteString builder '' ['';
                            builder = WriteString builder
                              (BrightYellow (aurora w) (Join_comma (SubjectOrg cert)))
                        in WriteString builder '']'')
                     else builder);
          builder = (if TLSVersion (options w) then
                       (let builder = WriteString builder '' ['';
                            builder = WriteString builder
                              (Blue (aurora w) (ToUpper e (Version output)))
                        in WriteString builder '']'')
                     else builder);
          builder = (if optCipher (options w) then
                       (let builder = WriteString builder '' ['';
                            builder = WriteString builder (Green (aurora w) (Cipher output))
                        in WriteString builder '']'')
                     else builder);
          builder = (if optExpired (options w) \<and> Expired cert then
                       (let builder = WriteString builder '' ['';
                            builder = WriteString builder (Red (aurora w) ''expired'')
                        in WriteString builder '']'')
                     else builder);
          builder = (if optSelfSigned (options w) \<and> SelfSigned cert then
                       (let builder = WriteString builder '' ['';
                            builder = WriteString builder (Yellow (aurora w) ''self-signed'')
                        in WriteString builder '']'')
                     else builder);
          builder = (if Hash (options w) \<noteq> [] then
                       (let hashOpts = Split_comma (Hash (options w))
                        in write_hashes w cert hashOpts builder)
                     else builder)
      in (builder, None))"

text \<open>\<^verbatim>\<open>formatJSON\<close> is the result of \<^verbatim>\<open>jsoniter.Marshal\<close>.\<close>

definition formatJSON :: "env \<Rightarrow> StandardWriter \<Rightarrow> Response \<Rightarrow> string \<times> error option" where
  "formatJSON e w output =
     (case Marshal e output of Inl err \<Rightarrow> ([], Some err) | Inr data \<Rightarrow> (data, None))"

section \<open>The dual-sink writer\<close>

text \<open>
  \<^verbatim>\<open>StandardWriter.Write\<close>. The state is the writer (whose file sink changes) and
  standard output; the result is the returned error, \<open>None\<close> for nil. The results of
  the two writes to standard output are discarded, as in the source.
\<close>

definition Write :: "env \<Rightarrow> StandardWriter \<Rightarrow> osFile \<Rightarrow> Response
    \<Rightarrow> error option \<times> StandardWriter \<times> osFile" where
  "Write e w stdout event =
     (let (data, err) = (if json w then formatJSON e w event else formatStandard e w event)
      in if err \<noteq> None then (Wrap err ''could not format output'', w, stdout)
         else
           (let data = TrimSuffix_nl data;
                stdout = snd (os_Write stdout data);
                stdout = snd (os_Write stdout [newline])
            in case outputFile w of
                 None \<Rightarrow> (None, w, stdout)
               | Some f \<Rightarrow>
                   (let data = (if \<not> json w then decolorize data else data);
                        (writeErr, f) = fileWriter_Write f data
                    in if writeErr \<noteq> None
                       then (Wrap err ''could not write to output'',
                             w\<lparr>outputFile := Some f\<rparr>, stdout)
                       else (None, w\<lparr>outputFile := Some f\<rparr>, stdout))))"

section \<open>The text layout in the words of the specification\<close>

text \<open>
  The specification describes the text form as a name block, an optional prefix of the
  summary line, and a fixed sequence of bracketed segments. These definitions follow its
  words; the theorems below compare them with \<^const>\<open>formatStandard\<close>.
\<close>

definition outputPrefix_of :: "StandardWriter \<Rightarrow> Response \<Rightarrow> string" where
  "outputPrefix_of w output =
     (if RespOnly (options w) then [] else Host output @ '':'' @ Port output)"

definition included_names :: "StandardWriter \<Rightarrow> CertificateResponse \<Rightarrow> string list" where
  "included_names w cert =
     (if SAN (options w) then SubjectAN cert else []) @
     (if CN (options w) then [SubjectCN cert] else [])"

definition name_line :: "StandardWriter \<Rightarrow> Response \<Rightarrow> string \<Rightarrow> string" where
  "name_line w output name =
     (if RespOnly (options w) then name @ [newline]
      else outputPrefix_of w output @ '' ['' @ Cyan (aurora w) name @ '']'' @ [newline])"

definition name_block :: "env \<Rightarrow> StandardWriter \<Rightarrow> Response \<Rightarrow> string" where
  "name_block e w output =
     concat (map (name_line w output)
       (uniqueNormalizeCertNames e (included_names w (CertificateResponse output))))"

definition summary_prefix :: "StandardWriter \<Rightarrow> Response \<Rightarrow> string" where
  "summary_prefix w output =
     (if \<not> SAN (options w) \<and> \<not> CN (options w) then outputPrefix_of w output else [])"

definition segment :: "string \<Rightarrow> string" where
  "segment v = '' ['' @ v @ '']''"

definition organization_segment :: "StandardWriter \<Rightarrow> CertificateResponse \<Rightarrow> string" where
  "organization_segment w cert =
     (if SO (options w) \<and> SubjectOrg cert \<noteq> []
      then segment (BrightYellow (aurora w) (Join_comma (SubjectOrg cert))) else [])"

definition version_segment :: "env \<Rightarrow> StandardWriter \<Rightarrow> Response \<Rightarrow> string" where
  "version_segment e w output =
     (if TLSVersion (options w)
      then segment (Blue (aurora w) (ToUpper e (Version output))) else [])"

definition cipher_segment :: "StandardWriter \<Rightarrow> Response \<Rightarrow> string" where
  "cipher_segment w output =
     (if optCipher (options w) then segment (Green (aurora w) (Cipher output)) else [])"

definition expired_segment :: "StandardWriter \<Rightarrow> CertificateResponse \<Rightarrow> string" where
  "expired_segment w cert =
     (if optExpired (options w) \<and> Expired cert
      then segment (Red (aurora w) ''expired'') else [])"

definition self_signed_segment :: "StandardWriter \<Rightarrow> CertificateResponse \<Rightarrow> string" where
  "self_signed_segment w cert =
     (if optSelfSigned (options w) \<and> SelfSigned cert
      then segment (Yellow (aurora w) ''self-signed'') else [])"

definition hashAlgorithms :: "Options \<Rightarrow> string list" where
  "hashAlgorithms opts = (if Hash opts = [] then [] else Split_comma (Hash opts))"

definition hash_segment :: "StandardWriter \<Rightarrow> CertificateResponse \<Rightarrow> string \<Rightarrow> string" where
  "hash_segment w cert algorithm =
     segment (BrightMagenta (aurora w) (hash_value cert algorithm))"

definition hash_block :: "StandardWriter \<Rightarrow> CertificateResponse \<Rightarrow> string" where
  "hash_block w cert = concat (map (hash_segment w cert) (hashAlgorithms (options w)))"

text \<open>
  A byte string in which every ESC byte begins a complete sequence
  \<^verbatim>\<open>ESC [ <digits/semicolons>* <letter>\<close>.
\<close>

fun every_ESC_starts_sequence :: "string \<Rightarrow> bool" where
  "every_ESC_starts_sequence [] = True"
| "every_ESC_starts_sequence (c # cs) =
     ((c = ESC \<longrightarrow> match_at_head (c # cs) \<noteq> None) \<and> every_ESC_starts_sequence cs)"

text \<open>A response none of whose printed fields contains an ESC byte.\<close>

definition no_ESC_in_fields :: "env \<Rightarrow> Response \<Rightarrow> bool" where
  "no_ESC_in_fields e output =
     (ESC \<notin> set (Host output) \<and> ESC \<notin> set (Port output) \<and>
      ESC \<notin> set (ToUpper e (Version output)) \<and> ESC \<notin> set (Cipher output) \<and>
      (\<forall>name\<in>set (SubjectAN (CertificateResponse output)). ESC \<notin> set name) \<and>
      ESC \<notin> set (SubjectCN (CertificateResponse output)) \<and>
      (\<forall>org\<in>set (SubjectOrg (CertificateResponse output)). ESC \<notin> set org) \<and>
      ESC \<notin> set (MD5 (FingerprintHash (CertificateResponse output))) \<and>
      ESC \<notin> set (SHA1 (FingerprintHash (CertificateResponse output))) \<and>
      ESC \<notin> set (SHA256 (FingerprintHash (CertificateResponse output))))"

text \<open>Exactly one line terminator at the end.\<close>

definition ends_with_one_newline :: "string \<Rightarrow> bool" where
  "ends_with_one_newline s =
     (s \<noteq> [] \<and> last s = newline \<and> (butlast s = [] \<or> last (butlast s) \<noteq> newline))"

section \<open>Concrete inputs\<close>

text \<open>
  Instances of the outside functions for evaluating the model: an upper-casing that
  agrees with \<^verbatim>\<open>strings.ToUpper\<close> on ASCII, a serialiser that fails and one that
  succeeds, and the iteration order that happens to be the insertion order.
\<close>

definition ascii_upper :: "string \<Rightarrow> string" where
  "ascii_upper s =
     map (\<lambda>c. if c \<in> set ''abcdefghijklmnopqrstuvwxyz''
              then char_of (of_char c - (32::nat)) else c) s"

definition insertion_order :: "string list \<Rightarrow> string list" where
  "insertion_order keys = keys"

definition marshal_fails :: "Response \<Rightarrow> error + string" where
  "marshal_fails r = Inl MarshalError"

definition marshal_host :: "Response \<Rightarrow> error + string" where
  "marshal_host r = Inr (''{\"host\":\"'' @ Host r @ ''\"}'')"

definition env_ok :: env where
  "env_ok = \<lparr>ToUpper = ascii_upper, Marshal = marshal_host, rangeOrder = insertion_order\<rparr>"

definition env_fail :: env where
  "env_fail = \<lparr>ToUpper = ascii_upper, Marshal = marshal_fails, rangeOrder = insertion_order\<rparr>"

definition no_options :: Options where
  "no_options =
     \<lparr>OutputFile = [], JSON = False, NoColor = False, RespOnly = False, SAN = False,
      CN = False, SO = False, TLSVersion = False, optCipher = False, optExpired = False,
      optSelfSigned = False, Hash = []\<rparr>"

definition example_cert :: CertificateResponse where
  "example_cert =
     \<lparr>SubjectAN = [''*.example.com'', ''a.example.com''], SubjectCN = ''a.example.com'',
      SubjectOrg = [''Example Org''], Expired = True, SelfSigned = True,
      FingerprintHash = \<lparr>MD5 = ''aa11'', SHA1 = ''bb22'', SHA256 = ''cc33''\<rparr>\<rparr>"

definition example_response :: Response where
  "example_response =
     \<lparr>Host = ''example.com'', Port = ''443'', Version = ''tls12'',
      Cipher = ''TLS_AES_128_GCM_SHA256'', CertificateResponse = example_cert\<rparr>"

text \<open>A common name that carries escape bytes, and one that ends with a line terminator.\<close>

definition hostile_response :: Response where
  "hostile_response =
     example_response\<lparr>CertificateResponse :=
       example_cert\<lparr>SubjectCN := ESC # ''['' @ ESC # ''[0m0m''\<rparr>\<rparr>"

definition newline_response :: Response where
  "newline_response =
     example_response\<lparr>CertificateResponse :=
       example_cert\<lparr>SubjectCN := ''a.example.com'' @ [newline]\<rparr>\<rparr>"

definition plain_writer :: StandardWriter where
  "plain_writer = \<lparr>json = False, aurora = False, outputFile = None, options = no_options\<rparr>"

definition color_file_writer :: StandardWriter where
  "color_file_writer =
     \<lparr>json = False, aurora = True,
      outputFile = Some \<lparr>payloads = [], broken = False\<rparr>, options = no_options\<rparr>"

definition empty_stdout :: osFile where
  "empty_stdout = \<lparr>written = [], failing = False\<rparr>"

definition failing_stdout :: osFile where
  "failing_stdout = \<lparr>written = [], failing = True\<rparr>"

definition empty_file :: fileWriter where
  "empty_file = \<lparr>payloads = [], broken = False\<rparr>"

definition broken_file :: fileWriter where
  "broken_file = \<lparr>payloads = [], broken = True\<rparr>"

section \<open>Errors of a submission\<close>

lemma formatStandard_no_error: "snd (formatStandard e w output) = None"
  by (simp add: formatStandard_def Let_def)

text \<open>
  In text mode formatting cannot fail, so the variable \<^verbatim>\<open>err\<close> is nil when the file
  sink is written. A failing sink makes \<^verbatim>\<open>Write\<close> return
  \<^verbatim>\<open>errors.Wrap(err, ...)\<close> of that nil error, which is nil.
\<close>

lemma Write_broken_file_text:
  assumes "\<not> json w" "outputFile w = Some f" "broken f"
  shows "fst (Write e w stdout event) = None"
proof -
  obtain data where d: "formatStandard e w event = (data, None)"
    using formatStandard_no_error [of e w event]
    by (cases "formatStandard e w event") auto
  show ?thesis
    using assms d by (simp add: Write_def Let_def fileWriter_Write_def)
qed

text \<open>
  The two writes to standard output have their results discarded: the returned error is
  the same whatever standard output does.
\<close>

lemma Write_ignores_stdout_failure:
  "fst (Write e w stdout event) = fst (Write e w stdout' event)"
  by (simp add: Write_def Let_def split: prod.splits option.splits)

text \<open>
  Claim C1: when a secondary file sink is configured and its write fails, the submission
  returns an error to the caller. The code does not: for the example response in text
  mode and a file sink whose write fails, \<^verbatim>\<open>Write\<close> returns nil.
\<close>

theorem Write_secondary_failure_unreported:
  "fst (Write env_ok
          \<lparr>json = False, aurora = True, outputFile = Some broken_file,
           options = no_options\<lparr>CN := True\<rparr>\<rparr>
          empty_stdout example_response) = None"
  by (rule Write_broken_file_text [where f = broken_file]) (simp_all add: broken_file_def)

text \<open>
  Claim C2: when formatting a record fails, the submission returns the format error
  (wrapped with the message of the failed operation) and writes nothing: the writer, with
  its file sink, and standard output are returned unchanged.
\<close>

theorem Write_format_error:
  assumes "snd (if json w then formatJSON e w event else formatStandard e w event) = Some err"
  shows "Write e w stdout event = (Some (Wrapped ''could not format output'' err), w, stdout)"
proof -
  obtain data where
    "(if json w then formatJSON e w event else formatStandard e w event) = (data, Some err)"
    using assms
    by (cases "if json w then formatJSON e w event else formatStandard e w event") auto
  then show ?thesis
    by (simp add: Write_def)
qed

theorem Write_format_error_witness:
  "snd (if json \<lparr>json = True, aurora = True, outputFile = Some empty_file,
                 options = no_options\<rparr>
        then formatJSON env_fail
               \<lparr>json = True, aurora = True, outputFile = Some empty_file,
                options = no_options\<rparr> example_response
        else formatStandard env_fail
               \<lparr>json = True, aurora = True, outputFile = Some empty_file,
                options = no_options\<rparr> example_response) = Some MarshalError
   \<and> Write env_fail
        \<lparr>json = True, aurora = True, outputFile = Some empty_file, options = no_options\<rparr>
        empty_stdout example_response
     = (Some (Wrapped ''could not format output'' MarshalError),
        \<lparr>json = True, aurora = True, outputFile = Some empty_file, options = no_options\<rparr>,
        empty_stdout)"
proof -
  have h: "snd (if json \<lparr>json = True, aurora = True, outputFile = Some empty_file,
                 options = no_options\<rparr>
        then formatJSON env_fail
               \<lparr>json = True, aurora = True, outputFile = Some empty_file,
                options = no_options\<rparr> example_response
        else formatStandard env_fail
               \<lparr>json = True, aurora = True, outputFile = Some empty_file,
                options = no_options\<rparr> example_response) = Some MarshalError"
    by (simp add: formatJSON_def env_fail_def marshal_fails_def)
  from h Write_format_error [OF h] show ?thesis by simp
qed

section \<open>Normalised names\<close>

text \<open>
  One pass of \<^const>\<open>Replace_wildcard\<close> drops exactly the positions of the input that
  belong to an occurrence of the star followed by the dot.
\<close>

lemma occurrence_at_Cons_Suc: "occurrence_at (c # t) (Suc i) = occurrence_at t i"
  by (simp add: occurrence_at_def)

lemma occurrence_at_0: "occurrence_at (c # d # rest) 0 = (c = CHR ''*'' \<and> d = CHR ''.'')"
  by (simp add: occurrence_at_def)

lemma kept_Cons:
  "map (\<lambda>i. (c # t) ! i) (filter P [0..<length (c # t)]) =
     (if P 0 then [c] else []) @ map (\<lambda>i. t ! i) (filter (\<lambda>i. P (Suc i)) [0..<length t])"
proof -
  have "[0..<length (c # t)] = 0 # map Suc [0..<length t]"
    by (simp add: upt_conv_Cons map_Suc_upt del: upt_Suc)
  then show ?thesis
    by (simp add: filter_map o_def)
qed

lemma without_occurrences_Cons:
  "without_occurrences (c # t) =
     (if in_occurrence (c # t) 0 then [] else [c]) @
     map (\<lambda>i. t ! i) (filter (\<lambda>i. \<not> in_occurrence (c # t) (Suc i)) [0..<length t])"
  unfolding without_occurrences_def by (subst kept_Cons) simp

lemma without_occurrences_skip:
  assumes "\<not> occurrence_at (c # t) 0"
  shows "without_occurrences (c # t) = c # without_occurrences t"
proof -
  have "in_occurrence (c # t) (Suc i) = in_occurrence t i" for i
    using assms by (cases i) (auto simp add: in_occurrence_def occurrence_at_Cons_Suc)
  moreover have "\<not> in_occurrence (c # t) 0"
    using assms by (simp add: in_occurrence_def)
  ultimately show ?thesis
    by (simp add: without_occurrences_Cons) (simp add: without_occurrences_def)
qed

lemma without_occurrences_drop:
  "without_occurrences (CHR ''*'' # CHR ''.'' # rest) = without_occurrences rest"
proof -
  let ?s = "CHR ''*'' # CHR ''.'' # rest"
  have 0: "in_occurrence ?s 0"
    by (simp add: in_occurrence_def occurrence_at_0)
  have 1: "in_occurrence ?s (Suc 0)"
    by (simp add: in_occurrence_def occurrence_at_0)
  have shift: "in_occurrence ?s (Suc (Suc i)) = in_occurrence rest i" for i
    by (cases i) (auto simp add: in_occurrence_def occurrence_at_Cons_Suc occurrence_at_def)
  have "without_occurrences ?s =
          map (\<lambda>i. (CHR ''.'' # rest) ! i)
            (filter (\<lambda>i. \<not> in_occurrence ?s (Suc i)) [0..<length (CHR ''.'' # rest)])"
    using 0 by (simp add: without_occurrences_Cons)
  also have "\<dots> = map (\<lambda>i. rest ! i)
            (filter (\<lambda>i. \<not> in_occurrence ?s (Suc (Suc i))) [0..<length rest])"
    using 1 by (subst kept_Cons) simp
  also have "\<dots> = without_occurrences rest"
    by (simp add: shift without_occurrences_def)
  finally show ?thesis .
qed

lemma Replace_wildcard_without_occurrences: "Replace_wildcard s = without_occurrences s"
proof (induction s rule: Replace_wildcard.induct)
  case 1
  show ?case by (simp add: without_occurrences_def)
next
  case (2 c)
  have "\<not> occurrence_at [c] 0" by (simp add: occurrence_at_def)
  then have "without_occurrences [c] = c # without_occurrences []"
    by (rule without_occurrences_skip)
  then show ?case by (simp add: without_occurrences_def)
next
  case (3 c d rest)
  show ?case
  proof (cases "c = CHR ''*'' \<and> d = CHR ''.''")
    case True
    with 3 show ?thesis by (simp add: without_occurrences_drop)
  next
    case False
    then have "\<not> occurrence_at (c # d # rest) 0" by (simp add: occurrence_at_0)
    then have "without_occurrences (c # d # rest) = c # without_occurrences (d # rest)"
      by (rule without_occurrences_skip)
    with 3 False show ?thesis by auto
  qed
qed

text \<open>
  The occurrences of the input are removed; the pieces that remain are joined, and the
  joint can spell the two characters again.
\<close>

lemma Replace_wildcard_leaves_wildcard: "Replace_wildcard ''**..'' = ''*.''"
  by simp

lemma set_collect_unique:
  "set (collect_unique unique names) = set unique \<union> Replace_wildcard ` set names"
  by (induction names arbitrary: unique) (auto simp add: Let_def)

lemma distinct_collect_unique:
  "distinct unique \<Longrightarrow> distinct (collect_unique unique names)"
  by (induction names arbitrary: unique) (auto simp add: Let_def)

lemma rangeOrder_mset: "visits_each_key_once e \<Longrightarrow> mset (rangeOrder e keys) = mset keys"
  unfolding visits_each_key_once_def by (rule spec)

lemma rangeOrder_set: "visits_each_key_once e \<Longrightarrow> set (rangeOrder e keys) = set keys"
  by (rule mset_eq_setD) (rule rangeOrder_mset)

lemma rangeOrder_distinct:
  "visits_each_key_once e \<Longrightarrow> distinct (rangeOrder e keys) = distinct keys"
  by (rule mset_eq_imp_distinct_iff) (rule rangeOrder_mset)

lemma rangeOrder_Nil: "visits_each_key_once e \<Longrightarrow> rangeOrder e [] = []"
  using rangeOrder_mset [of e "[]"] by simp

lemma count_list_distinct: "distinct xs \<Longrightarrow> x \<in> set xs \<Longrightarrow> count_list xs x = 1"
  by (induction xs) (auto simp add: count_list_0_iff)

lemma visits_each_key_once_env_ok: "visits_each_key_once env_ok"
  by (simp add: visits_each_key_once_def env_ok_def insertion_order_def)

text \<open>
  Claim C3: the normaliser removes every occurrence of the wildcard marker from each
  name, not only a leading one, and returns each normalised name exactly once; for the
  alternative names \<^verbatim>\<open>*.example.com\<close>, \<^verbatim>\<open>a.example.com\<close> and the common name
  \<^verbatim>\<open>a.example.com\<close> the result, as a set, is \<^verbatim>\<open>example.com\<close> and
  \<^verbatim>\<open>a.example.com\<close>. The order of the result is whatever the map iteration gives.
\<close>

theorem uniqueNormalizeCertNames_normalizes:
  assumes "visits_each_key_once e"
  shows "set (uniqueNormalizeCertNames e names) = without_occurrences ` set names
       \<and> distinct (uniqueNormalizeCertNames e names)
       \<and> (\<forall>name\<in>set names.
            count_list (uniqueNormalizeCertNames e names) (Replace_wildcard name) = 1)
       \<and> set (uniqueNormalizeCertNames e
                ([''*.example.com'', ''a.example.com''] @ [''a.example.com'']))
           = {''example.com'', ''a.example.com''}"
proof -
  have s: "set (uniqueNormalizeCertNames e ns) = Replace_wildcard ` set ns" for ns
    using assms by (simp add: uniqueNormalizeCertNames_def rangeOrder_set set_collect_unique)
  have d: "distinct (uniqueNormalizeCertNames e names)"
    using assms
    by (simp add: uniqueNormalizeCertNames_def rangeOrder_distinct distinct_collect_unique)
  have f: "Replace_wildcard = without_occurrences"
    by (rule ext) (rule Replace_wildcard_without_occurrences)
  have c: "\<forall>name\<in>set names.
            count_list (uniqueNormalizeCertNames e names) (Replace_wildcard name) = 1"
    using d s [of names] by (simp add: count_list_distinct)
  have ex: "set (uniqueNormalizeCertNames e
                ([''*.example.com'', ''a.example.com''] @ [''a.example.com'']))
           = {''example.com'', ''a.example.com''}"
    by (simp add: s)
  from s [of names] d c ex show ?thesis by (simp add: f)
qed

theorem uniqueNormalizeCertNames_normalizes_witness:
  "visits_each_key_once env_ok
   \<and> set (uniqueNormalizeCertNames env_ok
            ([''*.example.com'', ''a.example.com''] @ [''a.example.com'']))
       = {''example.com'', ''a.example.com''}
   \<and> distinct (uniqueNormalizeCertNames env_ok
            ([''*.example.com'', ''a.example.com''] @ [''a.example.com'']))"
proof -
  note t = uniqueNormalizeCertNames_normalizes [OF visits_each_key_once_env_ok,
      of "[''*.example.com'', ''a.example.com''] @ [''a.example.com'']"]
  from t have "distinct (uniqueNormalizeCertNames env_ok
            ([''*.example.com'', ''a.example.com''] @ [''a.example.com'']))"
    by (rule conjunct1 [OF conjunct2])
  moreover from t have "set (uniqueNormalizeCertNames env_ok
            ([''*.example.com'', ''a.example.com''] @ [''a.example.com'']))
       = {''example.com'', ''a.example.com''}"
    by (rule conjunct2 [OF conjunct2 [OF conjunct2]])
  ultimately show ?thesis
    using visits_each_key_once_env_ok by (intro conjI)
qed

section \<open>The layout of the text form\<close>

lemma write_names_eq:
  "write_names w (outputPrefix_of w output) names builder =
     builder @ concat (map (name_line w output) names)"
  by (induction names arbitrary: builder)
     (simp_all add: WriteString_def name_line_def Let_def)

lemma write_hashes_eq:
  "write_hashes w cert hashOpts builder = builder @ concat (map (hash_segment w cert) hashOpts)"
  by (induction hashOpts arbitrary: builder)
     (simp_all add: WriteString_def hash_segment_def segment_def Let_def)

lemma formatStandard_eq:
  "fst (formatStandard e w output) =
     name_block e w output @ summary_prefix w output @
     organization_segment w (CertificateResponse output) @
     version_segment e w output @
     cipher_segment w output @
     expired_segment w (CertificateResponse output) @
     self_signed_segment w (CertificateResponse output) @
     hash_block w (CertificateResponse output)"
proof -
  have prefix: "(if \<not> RespOnly (options w)
                 then WriteString (WriteString (WriteString [] (Host output)) '':'') (Port output)
                 else []) = outputPrefix_of w output"
    by (simp add: WriteString_def outputPrefix_of_def)
  have names: "(if CN (options w)
                then (if SAN (options w) then [] @ SubjectAN (CertificateResponse output) else [])
                     @ [SubjectCN (CertificateResponse output)]
                else (if SAN (options w) then [] @ SubjectAN (CertificateResponse output) else []))
               = included_names w (CertificateResponse output)"
    by (simp add: included_names_def)
  show ?thesis
    unfolding formatStandard_def Let_def prefix names Reset_def
    by (simp add: write_names_eq write_hashes_eq WriteString_def name_block_def
        summary_prefix_def organization_segment_def version_segment_def cipher_segment_def
        expired_segment_def self_signed_segment_def hash_block_def hashAlgorithms_def
        segment_def)
qed

text \<open>
  Claim C9: in text mode the enabled parts appear in one fixed order, name block,
  organization, TLS version, cipher, expired flag, self-signed flag, hash block, whatever
  subset of the toggles is enabled. A part that is switched off is the empty string.
\<close>

theorem formatStandard_field_order:
  "fst (formatStandard e w output) =
     name_block e w output @ summary_prefix w output @
     organization_segment w (CertificateResponse output) @
     version_segment e w output @
     cipher_segment w output @
     expired_segment w (CertificateResponse output) @
     self_signed_segment w (CertificateResponse output) @
     hash_block w (CertificateResponse output)"
  by (rule formatStandard_eq)

lemma Split_comma_not_Nil: "Split_comma s \<noteq> []"
  by (induction s) (auto split: list.splits)

lemma Split_comma_no_comma: "CHR '','' \<notin> set x \<Longrightarrow> Split_comma x = [x]"
  by (induction x) auto

lemma Split_comma_append:
  "CHR '','' \<notin> set x \<Longrightarrow> Split_comma (x @ CHR '','' # rest) = x # Split_comma rest"
  by (induction x) (auto split: list.splits)

lemma Split_comma_Join_comma:
  "algorithms \<noteq> [] \<Longrightarrow> \<forall>a\<in>set algorithms. CHR '','' \<notin> set a
     \<Longrightarrow> Split_comma (Join_comma algorithms) = algorithms"
proof (induction algorithms rule: Join_comma.induct)
  case 1
  then show ?case by simp
next
  case (2 x)
  then show ?case by (simp add: Split_comma_no_comma)
next
  case (3 x y rest)
  then show ?case by (simp add: Split_comma_append)
qed

lemma Join_comma_Nil_iff: "Join_comma algorithms = [] \<longleftrightarrow> algorithms = [] \<or> algorithms = [[]]"
  by (induction algorithms rule: Join_comma.induct) auto

lemma hashAlgorithms_Join_comma:
  assumes "Hash opts = Join_comma algorithms" "algorithms \<noteq> [[]]"
    "\<forall>a\<in>set algorithms. CHR '','' \<notin> set a"
  shows "hashAlgorithms opts = algorithms"
proof (cases "algorithms = []")
  case True
  with assms show ?thesis by (simp add: hashAlgorithms_def)
next
  case False
  with assms have "Join_comma algorithms \<noteq> []" by (simp add: Join_comma_Nil_iff)
  with assms False show ?thesis by (simp add: hashAlgorithms_def Split_comma_Join_comma)
qed

lemma hash_block_without_Hash: "hash_block (w\<lparr>options := (options w)\<lparr>Hash := []\<rparr>\<rparr>) cert = []"
  by (simp add: hash_block_def hashAlgorithms_def)

lemma name_line_without_Hash:
  "name_line (w\<lparr>options := (options w)\<lparr>Hash := []\<rparr>\<rparr>) output = name_line w output"
  by (rule ext) (simp add: name_line_def outputPrefix_of_def)

lemma name_block_without_Hash:
  "name_block e (w\<lparr>options := (options w)\<lparr>Hash := []\<rparr>\<rparr>) output = name_block e w output"
  by (simp add: name_block_def name_line_without_Hash included_names_def)

lemma segments_without_Hash:
  "summary_prefix (w\<lparr>options := (options w)\<lparr>Hash := []\<rparr>\<rparr>) output = summary_prefix w output"
  "organization_segment (w\<lparr>options := (options w)\<lparr>Hash := []\<rparr>\<rparr>) cert =
     organization_segment w cert"
  "version_segment e (w\<lparr>options := (options w)\<lparr>Hash := []\<rparr>\<rparr>) output =
     version_segment e w output"
  "cipher_segment (w\<lparr>options := (options w)\<lparr>Hash := []\<rparr>\<rparr>) output = cipher_segment w output"
  "expired_segment (w\<lparr>options := (options w)\<lparr>Hash := []\<rparr>\<rparr>) cert = expired_segment w cert"
  "self_signed_segment (w\<lparr>options := (options w)\<lparr>Hash := []\<rparr>\<rparr>) cert =
     self_signed_segment w cert"
  by (simp_all add: summary_prefix_def outputPrefix_of_def organization_segment_def
      version_segment_def cipher_segment_def expired_segment_def self_signed_segment_def)

lemma hash_segment_fun:
  "hash_segment w cert = (\<lambda>a. '' ['' @ BrightMagenta (aurora w) (hash_value cert a) @ '']'')"
  by (rule ext) (simp add: hash_segment_def segment_def)

text \<open>
  Claim C6: the summary line ends with one bracketed hash segment per configured
  algorithm, in the configured order, each holding the fingerprint of that algorithm and
  the empty string for an unrecognised algorithm name; with the algorithms sha256 and md5
  there are two segments, the sha256 value first. The configured list is the
  comma-separated option \<^verbatim>\<open>Hash\<close>.
\<close>

theorem formatStandard_hash_segments:
  assumes "Hash (options w) = Join_comma algorithms" "algorithms \<noteq> [[]]"
    "\<forall>a\<in>set algorithms. CHR '','' \<notin> set a"
  shows "fst (formatStandard e w output) =
           fst (formatStandard e (w\<lparr>options := (options w)\<lparr>Hash := []\<rparr>\<rparr>) output) @
           concat (map (\<lambda>a. '' ['' @
                          BrightMagenta (aurora w) (hash_value (CertificateResponse output) a) @
                          '']'') algorithms)
         \<and> hash_value (CertificateResponse output) ''md5'' =
             MD5 (FingerprintHash (CertificateResponse output))
         \<and> hash_value (CertificateResponse output) ''sha1'' =
             SHA1 (FingerprintHash (CertificateResponse output))
         \<and> hash_value (CertificateResponse output) ''sha256'' =
             SHA256 (FingerprintHash (CertificateResponse output))
         \<and> (\<forall>a. a \<notin> {''md5'', ''sha1'', ''sha256''} \<longrightarrow>
                hash_value (CertificateResponse output) a = [])
         \<and> (algorithms = [''sha256'', ''md5''] \<longrightarrow>
              fst (formatStandard e w output) =
                fst (formatStandard e (w\<lparr>options := (options w)\<lparr>Hash := []\<rparr>\<rparr>) output) @
                '' ['' @ BrightMagenta (aurora w)
                          (SHA256 (FingerprintHash (CertificateResponse output))) @ '']'' @
                '' ['' @ BrightMagenta (aurora w)
                          (MD5 (FingerprintHash (CertificateResponse output))) @ '']'')"
proof -
  have algs: "hashAlgorithms (options w) = algorithms"
    using assms by (rule hashAlgorithms_Join_comma)
  have main: "fst (formatStandard e w output) =
           fst (formatStandard e (w\<lparr>options := (options w)\<lparr>Hash := []\<rparr>\<rparr>) output) @
           concat (map (\<lambda>a. '' ['' @
                          BrightMagenta (aurora w) (hash_value (CertificateResponse output) a) @
                          '']'') algorithms)"
    by (simp add: formatStandard_eq name_block_without_Hash segments_without_Hash
        hash_block_without_Hash)
       (simp add: hash_block_def algs hash_segment_fun)
  have vals: "hash_value (CertificateResponse output) ''md5'' =
             MD5 (FingerprintHash (CertificateResponse output))
         \<and> hash_value (CertificateResponse output) ''sha1'' =
             SHA1 (FingerprintHash (CertificateResponse output))
         \<and> hash_value (CertificateResponse output) ''sha256'' =
             SHA256 (FingerprintHash (CertificateResponse output))
         \<and> (\<forall>a. a \<notin> {''md5'', ''sha1'', ''sha256''} \<longrightarrow>
                hash_value (CertificateResponse output) a = [])"
    by (simp add: hash_value_def)
  from main have two: "algorithms = [''sha256'', ''md5''] \<longrightarrow>
              fst (formatStandard e w output) =
                fst (formatStandard e (w\<lparr>options := (options w)\<lparr>Hash := []\<rparr>\<rparr>) output) @
                '' ['' @ BrightMagenta (aurora w)
                          (SHA256 (FingerprintHash (CertificateResponse output))) @ '']'' @
                '' ['' @ BrightMagenta (aurora w)
                          (MD5 (FingerprintHash (CertificateResponse output))) @ '']''"
    by (simp add: hash_value_def)
  from main vals two show ?thesis by blast
qed

theorem formatStandard_hash_segments_witness:
  "Hash (options (plain_writer\<lparr>options := no_options\<lparr>Hash := ''sha256,md5''\<rparr>\<rparr>))
     = Join_comma [''sha256'', ''md5'']
   \<and> fst (formatStandard env_ok
            (plain_writer\<lparr>options := no_options\<lparr>Hash := ''sha256,md5''\<rparr>\<rparr>) example_response)
     = ''example.com:443 [cc33] [aa11]''"
proof -
  let ?w = "plain_writer\<lparr>options := no_options\<lparr>Hash := ''sha256,md5''\<rparr>\<rparr>"
  have h1: "Hash (options ?w) = Join_comma [''sha256'', ''md5'']" by simp
  have h2: "[''sha256'', ''md5''] \<noteq> [[]]" by simp
  have h3: "\<forall>a\<in>set [''sha256'', ''md5'']. CHR '','' \<notin> set a" by simp
  have pre: "fst (formatStandard env_ok (?w\<lparr>options := (options ?w)\<lparr>Hash := []\<rparr>\<rparr>)
      example_response) = ''example.com:443''"
    by (simp add: formatStandard_def Let_def plain_writer_def no_options_def
        example_response_def WriteString_def Reset_def uniqueNormalizeCertNames_def
        env_ok_def insertion_order_def)
  from formatStandard_hash_segments [OF h1 h2 h3, of env_ok example_response] pre h1
  show ?thesis
    by (simp add: plain_writer_def BrightMagenta_def colorize_def example_response_def
        example_cert_def)
qed

lemma name_line_RespOnly:
  "RespOnly (options w) \<Longrightarrow> name_line w output = (\<lambda>name. name @ [newline])"
  by (rule ext) (simp add: name_line_def)

lemma formatStandard_Host_Port_irrelevant:
  assumes "name_block e w (output\<lparr>Host := host, Port := port\<rparr>) = name_block e w output"
    "summary_prefix w (output\<lparr>Host := host, Port := port\<rparr>) = summary_prefix w output"
  shows "formatStandard e w (output\<lparr>Host := host, Port := port\<rparr>) = formatStandard e w output"
proof (rule prod_eqI)
  show "fst (formatStandard e w (output\<lparr>Host := host, Port := port\<rparr>)) =
        fst (formatStandard e w output)"
    using assms
    by (simp add: formatStandard_eq version_segment_def cipher_segment_def)
next
  show "snd (formatStandard e w (output\<lparr>Host := host, Port := port\<rparr>)) =
        snd (formatStandard e w output)"
    by (simp add: formatStandard_no_error)
qed

text \<open>
  Claim C7: with \<^verbatim>\<open>RespOnly\<close> set, no line carries the host and port prefix: the
  name lines hold the name only, the summary line holds the segments only, and the
  formatted bytes do not depend on host and port.
\<close>

theorem formatStandard_RespOnly:
  assumes "RespOnly (options w)"
  shows "fst (formatStandard e w output) =
           concat (map (\<lambda>name. name @ [newline])
             (uniqueNormalizeCertNames e (included_names w (CertificateResponse output)))) @
           organization_segment w (CertificateResponse output) @
           version_segment e w output @
           cipher_segment w output @
           expired_segment w (CertificateResponse output) @
           self_signed_segment w (CertificateResponse output) @
           hash_block w (CertificateResponse output)
         \<and> formatStandard e w (output\<lparr>Host := host, Port := port\<rparr>) =
             formatStandard e w output"
proof
  show "fst (formatStandard e w output) =
           concat (map (\<lambda>name. name @ [newline])
             (uniqueNormalizeCertNames e (included_names w (CertificateResponse output)))) @
           organization_segment w (CertificateResponse output) @
           version_segment e w output @
           cipher_segment w output @
           expired_segment w (CertificateResponse output) @
           self_signed_segment w (CertificateResponse output) @
           hash_block w (CertificateResponse output)"
    using assms
    by (simp add: formatStandard_eq name_block_def name_line_RespOnly summary_prefix_def
        outputPrefix_of_def)
next
  show "formatStandard e w (output\<lparr>Host := host, Port := port\<rparr>) = formatStandard e w output"
    using assms
    by (intro formatStandard_Host_Port_irrelevant)
       (simp_all add: name_block_def name_line_RespOnly summary_prefix_def outputPrefix_of_def)
qed

theorem formatStandard_RespOnly_witness:
  "RespOnly (options (plain_writer\<lparr>options := no_options\<lparr>RespOnly := True, CN := True\<rparr>\<rparr>))
   \<and> fst (formatStandard env_ok
            (plain_writer\<lparr>options := no_options\<lparr>RespOnly := True, CN := True\<rparr>\<rparr>)
            example_response) = ''a.example.com'' @ [newline]
   \<and> formatStandard env_ok
        (plain_writer\<lparr>options := no_options\<lparr>RespOnly := True, CN := True\<rparr>\<rparr>)
        (example_response\<lparr>Host := ''other.example'', Port := ''8443''\<rparr>)
     = formatStandard env_ok
        (plain_writer\<lparr>options := no_options\<lparr>RespOnly := True, CN := True\<rparr>\<rparr>)
        example_response"
proof -
  let ?w = "plain_writer\<lparr>options := no_options\<lparr>RespOnly := True, CN := True\<rparr>\<rparr>"
  have h: "RespOnly (options ?w)" by simp
  have names: "uniqueNormalizeCertNames env_ok
      (included_names ?w (CertificateResponse example_response)) = [''a.example.com'']"
    by (simp add: uniqueNormalizeCertNames_def env_ok_def insertion_order_def
        included_names_def no_options_def example_response_def example_cert_def)
  from formatStandard_RespOnly [OF h, of env_ok example_response "''8443''" "''other.example''"]
    names h
  show ?thesis
    by (simp add: organization_segment_def version_segment_def cipher_segment_def
        expired_segment_def self_signed_segment_def hash_block_def hashAlgorithms_def
        no_options_def)
qed

text \<open>
  Claim C10: without \<^verbatim>\<open>RespOnly\<close>, when alternative names or the common name are
  included but the normalised name list is empty, the output holds no host and port
  prefix at all: it is the summary segments alone.
\<close>

theorem formatStandard_no_names_no_prefix:
  assumes "\<not> RespOnly (options w)" "SAN (options w) \<or> CN (options w)"
    "uniqueNormalizeCertNames e (included_names w (CertificateResponse output)) = []"
  shows "fst (formatStandard e w output) =
           organization_segment w (CertificateResponse output) @
           version_segment e w output @
           cipher_segment w output @
           expired_segment w (CertificateResponse output) @
           self_signed_segment w (CertificateResponse output) @
           hash_block w (CertificateResponse output)
         \<and> formatStandard e w (output\<lparr>Host := host, Port := port\<rparr>) =
             formatStandard e w output"
proof
  show "fst (formatStandard e w output) =
           organization_segment w (CertificateResponse output) @
           version_segment e w output @
           cipher_segment w output @
           expired_segment w (CertificateResponse output) @
           self_signed_segment w (CertificateResponse output) @
           hash_block w (CertificateResponse output)"
    using assms
    by (auto simp add: formatStandard_eq name_block_def summary_prefix_def)
next
  show "formatStandard e w (output\<lparr>Host := host, Port := port\<rparr>) = formatStandard e w output"
    using assms
    by (intro formatStandard_Host_Port_irrelevant)
       (auto simp add: name_block_def summary_prefix_def)
qed

theorem formatStandard_no_names_no_prefix_witness:
  "\<not> RespOnly (options (plain_writer\<lparr>options := no_options\<lparr>SAN := True, optCipher := True\<rparr>\<rparr>))
   \<and> (SAN (options (plain_writer\<lparr>options := no_options\<lparr>SAN := True, optCipher := True\<rparr>\<rparr>))
      \<or> CN (options (plain_writer\<lparr>options := no_options\<lparr>SAN := True, optCipher := True\<rparr>\<rparr>)))
   \<and> uniqueNormalizeCertNames env_ok
        (included_names (plain_writer\<lparr>options := no_options\<lparr>SAN := True, optCipher := True\<rparr>\<rparr>)
           (CertificateResponse
              (example_response\<lparr>CertificateResponse := example_cert\<lparr>SubjectAN := []\<rparr>\<rparr>))) = []
   \<and> fst (formatStandard env_ok
            (plain_writer\<lparr>options := no_options\<lparr>SAN := True, optCipher := True\<rparr>\<rparr>)
            (example_response\<lparr>CertificateResponse := example_cert\<lparr>SubjectAN := []\<rparr>\<rparr>))
       = '' [TLS_AES_128_GCM_SHA256]''"
proof -
  let ?w = "plain_writer\<lparr>options := no_options\<lparr>SAN := True, optCipher := True\<rparr>\<rparr>"
  let ?r = "example_response\<lparr>CertificateResponse := example_cert\<lparr>SubjectAN := []\<rparr>\<rparr>"
  have h1: "\<not> RespOnly (options ?w)" by (simp add: no_options_def)
  have h2: "SAN (options ?w) \<or> CN (options ?w)" by simp
  have h3: "uniqueNormalizeCertNames env_ok (included_names ?w (CertificateResponse ?r)) = []"
    by (simp add: uniqueNormalizeCertNames_def env_ok_def insertion_order_def
        included_names_def no_options_def)
  from formatStandard_no_names_no_prefix [OF h1 h2 h3] h1 h2 h3
  show ?thesis
    by (simp add: organization_segment_def version_segment_def cipher_segment_def
        expired_segment_def self_signed_segment_def hash_block_def hashAlgorithms_def
        no_options_def segment_def Green_def colorize_def plain_writer_def
        example_response_def)
qed

section \<open>Stripping escape sequences\<close>

lemma match_at_head_Some_iff:
  "match_at_head s = Some r \<longleftrightarrow>
     (\<exists>ps l. s = ESC # CHR ''['' # ps @ l # r \<and> (\<forall>p\<in>set ps. is_param p) \<and>
        \<not> is_param l \<and> is_letter l)"
proof
  assume "match_at_head s = Some r"
  then obtain rest l where s: "s = ESC # CHR ''['' # rest"
    and d: "dropWhile is_param rest = l # r" and l: "is_letter l"
    by (auto simp: match_at_head_def split: list.splits if_splits)
  have "rest = takeWhile is_param rest @ l # r"
    using d takeWhile_dropWhile_id [of is_param rest] by simp
  moreover have "\<forall>p\<in>set (takeWhile is_param rest). is_param p"
    by (auto dest: set_takeWhileD)
  moreover have "\<not> is_param l"
    using d by (metis hd_dropWhile list.sel(1) list.distinct(1))
  ultimately show "\<exists>ps l. s = ESC # CHR ''['' # ps @ l # r \<and> (\<forall>p\<in>set ps. is_param p) \<and>
        \<not> is_param l \<and> is_letter l"
    using s l by blast
next
  assume "\<exists>ps l. s = ESC # CHR ''['' # ps @ l # r \<and> (\<forall>p\<in>set ps. is_param p) \<and>
        \<not> is_param l \<and> is_letter l"
  then obtain ps l where s: "s = ESC # CHR ''['' # ps @ l # r"
    and ps: "\<forall>p\<in>set ps. is_param p" and l: "\<not> is_param l" "is_letter l"
    by blast
  have "dropWhile is_param (ps @ l # r) = l # r"
    using ps l by (simp add: dropWhile_append3)
  then show "match_at_head s = Some r"
    using s l by (simp add: match_at_head_def)
qed

lemma match_at_head_not_ESC: "c \<noteq> ESC \<Longrightarrow> match_at_head (c # cs) = None"
  by (simp add: match_at_head_def split: list.splits)

lemma match_at_head_append:
  "match_at_head s = Some r \<Longrightarrow> match_at_head (s @ t) = Some (r @ t)"
  unfolding match_at_head_Some_iff by auto

lemma match_at_head_suffix:
  "match_at_head s = Some r \<Longrightarrow> \<exists>xs. s = xs @ r"
proof -
  assume "match_at_head s = Some r"
  then obtain ps l where "s = ESC # CHR ''['' # ps @ l # r"
    unfolding match_at_head_Some_iff by blast
  then have "s = (ESC # CHR ''['' # ps @ [l]) @ r" by simp
  then show ?thesis by (rule exI)
qed

lemma match_at_head_shorter: "match_at_head s = Some r \<Longrightarrow> length r < length s"
  unfolding match_at_head_Some_iff by auto

lemma every_ESC_suffix: "every_ESC_starts_sequence (xs @ ys) \<Longrightarrow> every_ESC_starts_sequence ys"
  by (induction xs) auto

lemma every_ESC_append:
  "every_ESC_starts_sequence xs \<Longrightarrow> every_ESC_starts_sequence ys
     \<Longrightarrow> every_ESC_starts_sequence (xs @ ys)"
proof (induction xs)
  case Nil
  then show ?case by simp
next
  case (Cons c cs)
  then show ?case
    using match_at_head_append [of "c # cs" _ ys] by auto
qed

lemma every_ESC_no_ESC: "ESC \<notin> set s \<Longrightarrow> every_ESC_starts_sequence s"
  by (induction s) auto

lemma no_ESC_decolorize:
  "every_ESC_starts_sequence s \<Longrightarrow> ESC \<notin> set (decolorize s)"
proof (induction s rule: decolorize.induct)
  case 1
  show ?case by simp
next
  case (2 c cs)
  show ?case
  proof (cases "match_at_head (c # cs)")
    case None
    with 2 show ?thesis by auto
  next
    case (Some rest)
    then obtain xs where "c # cs = xs @ rest"
      using match_at_head_suffix by blast
    with "2.prems" have "every_ESC_starts_sequence rest"
      using every_ESC_suffix [of xs rest] by simp
    with 2 Some show ?thesis by simp
  qed
qed

lemma no_ESC_no_sequence: "ESC \<notin> set s \<Longrightarrow> \<not> has_escape_sequence s"
  by (induction s) (auto simp add: match_at_head_not_ESC)

lemma decolorize_unchanged: "\<not> has_escape_sequence s \<Longrightarrow> decolorize s = s"
  by (induction s rule: decolorize.induct) auto

lemma length_decolorize: "length (decolorize s) \<le> length s"
proof (induction s rule: decolorize.induct)
  case 1
  show ?case by simp
next
  case (2 c cs)
  show ?case
  proof (cases "match_at_head (c # cs)")
    case None
    with 2 show ?thesis by simp
  next
    case (Some rest)
    then obtain xs where "c # cs = xs @ rest"
      using match_at_head_suffix by blast
    then have "length rest \<le> length (c # cs)"
      by (metis length_append le_add2)
    with 2 Some show ?thesis by simp
  qed
qed

lemma decolorize_shorter: "has_escape_sequence s \<Longrightarrow> length (decolorize s) < length s"
proof (induction s rule: decolorize.induct)
  case 1
  then show ?case by simp
next
  case (2 c cs)
  show ?case
  proof (cases "match_at_head (c # cs)")
    case None
    with 2 show ?thesis by simp
  next
    case (Some rest)
    have "length (decolorize rest) \<le> length rest" by (rule length_decolorize)
    also have "length rest < length (c # cs)" using Some by (rule match_at_head_shorter)
    finally show ?thesis using Some by simp
  qed
qed

lemma decolorize_fixed_iff: "decolorize s = s \<longleftrightarrow> \<not> has_escape_sequence s"
  using decolorize_shorter [of s] decolorize_unchanged [of s] by auto

text \<open>
  Claim C8 says that stripping twice equals stripping once for every byte string. It
  fails for ESC, bracket, ESC, bracket, 0, m, 0, m: the first pass removes the inner
  sequence and leaves ESC, bracket, 0, m, which the second pass removes.
\<close>

theorem decolorize_not_idempotent:
  "decolorize (decolorize (ESC # ''['' @ ESC # ''[0m0m'')) \<noteq>
   decolorize (ESC # ''['' @ ESC # ''[0m0m'')"
  by (simp add: match_at_head_def ESC_def is_param_def is_letter_def)

text \<open>
  Claim C8, amended: stripping twice equals stripping once exactly when the stripped
  bytes contain no escape sequence; this is the case whenever every ESC byte of the input
  begins a complete sequence, and then the stripped bytes contain no ESC byte at all.
\<close>

theorem decolorize_idempotent_iff:
  "(decolorize (decolorize b) = decolorize b \<longleftrightarrow> \<not> has_escape_sequence (decolorize b))
   \<and> (every_ESC_starts_sequence b \<longrightarrow>
        ESC \<notin> set (decolorize b) \<and> decolorize (decolorize b) = decolorize b)"
  using decolorize_fixed_iff [of "decolorize b"] no_ESC_decolorize [of b]
    no_ESC_no_sequence [of "decolorize b"] by blast

theorem decolorize_idempotent_iff_witness:
  "every_ESC_starts_sequence (ESC # ''[36mname'' @ ESC # ''[0m'')
   \<and> decolorize (ESC # ''[36mname'' @ ESC # ''[0m'') = ''name''
   \<and> decolorize (decolorize (ESC # ''[36mname'' @ ESC # ''[0m''))
       = decolorize (ESC # ''[36mname'' @ ESC # ''[0m'')"
proof -
  have h: "every_ESC_starts_sequence (ESC # ''[36mname'' @ ESC # ''[0m'')"
    by (simp add: match_at_head_def is_param_def is_letter_def ESC_def)
  have v: "decolorize (ESC # ''[36mname'' @ ESC # ''[0m'') = ''name''"
    by (simp add: match_at_head_def is_param_def is_letter_def ESC_def)
  from decolorize_idempotent_iff [of "ESC # ''[36mname'' @ ESC # ''[0m''"] h v
  show ?thesis by blast
qed

section \<open>What the file sink receives\<close>

lemma param_not_ESC: "is_param p \<Longrightarrow> p \<noteq> ESC"
  by (auto simp add: is_param_def ESC_def)

lemma every_ESC_reset: "every_ESC_starts_sequence (ESC # ''[0m'')"
  by (simp add: match_at_head_def is_param_def is_letter_def ESC_def)

lemma every_ESC_colour_on:
  assumes "\<forall>p\<in>set code. is_param p"
  shows "every_ESC_starts_sequence (ESC # CHR ''['' # code @ ''m'')"
proof -
  have "match_at_head (ESC # CHR ''['' # code @ CHR ''m'' # []) = Some []"
    unfolding match_at_head_Some_iff using assms
    by (intro exI [of _ code] exI [of _ "CHR ''m''"]) (simp add: is_param_def is_letter_def)
  moreover have "ESC \<notin> set (CHR ''['' # code @ ''m'')"
    using assms by (auto simp add: ESC_def dest: param_not_ESC)
  ultimately have "match_at_head (ESC # CHR ''['' # code @ ''m'') \<noteq> None"
    and "every_ESC_starts_sequence (CHR ''['' # code @ ''m'')"
    by (simp_all only: every_ESC_no_ESC option.distinct not_False_eq_True)
  then show ?thesis
    by (subst every_ESC_starts_sequence.simps(2)) blast
qed

lemma every_ESC_colorize:
  assumes "ESC \<notin> set v" "\<forall>p\<in>set code. is_param p"
  shows "every_ESC_starts_sequence (colorize a code v)"
proof (cases a)
  case False
  with assms show ?thesis by (simp add: colorize_def every_ESC_no_ESC)
next
  case True
  have "every_ESC_starts_sequence ((ESC # CHR ''['' # code @ ''m'') @ v @ (ESC # ''[0m''))"
    by (intro every_ESC_append every_ESC_colour_on every_ESC_no_ESC every_ESC_reset assms)
  with True show ?thesis by (simp add: colorize_def)
qed

lemma every_ESC_colours:
  assumes "ESC \<notin> set v"
  shows "every_ESC_starts_sequence (Cyan a v)" "every_ESC_starts_sequence (BrightYellow a v)"
    "every_ESC_starts_sequence (Blue a v)" "every_ESC_starts_sequence (Green a v)"
    "every_ESC_starts_sequence (Red a v)" "every_ESC_starts_sequence (Yellow a v)"
    "every_ESC_starts_sequence (BrightMagenta a v)"
  unfolding Cyan_def BrightYellow_def Blue_def Green_def Red_def Yellow_def BrightMagenta_def
  by (rule every_ESC_colorize [OF assms], simp add: is_param_def)+

lemma every_ESC_segment:
  "every_ESC_starts_sequence v \<Longrightarrow> every_ESC_starts_sequence (segment v)"
proof -
  assume v: "every_ESC_starts_sequence v"
  have a: "every_ESC_starts_sequence '' [''" and b: "every_ESC_starts_sequence '']''"
    by (simp_all add: ESC_def)
  show ?thesis
    unfolding segment_def by (intro every_ESC_append a b v)
qed

lemma every_ESC_concat:
  "\<forall>x\<in>set xs. every_ESC_starts_sequence (f x) \<Longrightarrow> every_ESC_starts_sequence (concat (map f xs))"
  by (induction xs) (simp_all add: every_ESC_append)

lemma every_ESC_butlast:
  "every_ESC_starts_sequence (xs @ [newline]) \<Longrightarrow> every_ESC_starts_sequence xs"
proof (induction xs)
  case Nil
  show ?case by simp
next
  case (Cons c cs)
  have "match_at_head (c # cs) \<noteq> None" if "c = ESC"
  proof -
    from Cons.prems that obtain r where "match_at_head ((c # cs) @ [newline]) = Some r"
      by auto
    then obtain ps l where eq: "(c # cs) @ [newline] = ESC # CHR ''['' # ps @ l # r"
      and ps: "\<forall>p\<in>set ps. is_param p" and l: "\<not> is_param l" "is_letter l"
      unfolding match_at_head_Some_iff by blast
    have "r \<noteq> []"
    proof
      assume "r = []"
      with eq have "(c # cs) @ [newline] = (ESC # CHR ''['' # ps) @ [l]" by simp
      then have "l = newline" by (simp only: append1_eq_conv)
      with l show False by (simp add: is_letter_def newline_def)
    qed
    then have "r = butlast r @ [last r]" by simp
    with eq have "(c # cs) @ [newline] = (ESC # CHR ''['' # ps @ l # butlast r) @ [last r]"
      by simp
    then have "c # cs = ESC # CHR ''['' # ps @ l # butlast r"
      by (simp only: append1_eq_conv)
    with ps l have "match_at_head (c # cs) = Some (butlast r)"
      unfolding match_at_head_Some_iff by blast
    then show ?thesis by simp
  qed
  with Cons show ?case by simp
qed

lemma every_ESC_TrimSuffix:
  "every_ESC_starts_sequence s \<Longrightarrow> every_ESC_starts_sequence (TrimSuffix_nl s)"
proof (cases "s \<noteq> [] \<and> last s = newline")
  case True
  assume s: "every_ESC_starts_sequence s"
  from True have "s = butlast s @ [newline]" by (metis append_butlast_last_id)
  with s have "every_ESC_starts_sequence (butlast s)"
    using every_ESC_butlast [of "butlast s"] by simp
  with True show ?thesis by (simp add: TrimSuffix_nl_def)
next
  case False
  assume "every_ESC_starts_sequence s"
  with False show ?thesis by (auto simp add: TrimSuffix_nl_def)
qed

lemma set_Replace_wildcard: "set (Replace_wildcard s) \<subseteq> set s"
  by (induction s rule: Replace_wildcard.induct) auto

lemma no_ESC_Join_comma:
  "\<forall>x\<in>set xs. ESC \<notin> set x \<Longrightarrow> ESC \<notin> set (Join_comma xs)"
  by (induction xs rule: Join_comma.induct) (auto simp add: ESC_def)

lemma no_ESC_names:
  assumes "visits_each_key_once e" "\<forall>name\<in>set names. ESC \<notin> set name"
  shows "\<forall>name\<in>set (uniqueNormalizeCertNames e names). ESC \<notin> set name"
proof
  fix name assume "name \<in> set (uniqueNormalizeCertNames e names)"
  then have "name \<in> Replace_wildcard ` set names"
    using assms(1) by (simp add: uniqueNormalizeCertNames_def rangeOrder_set set_collect_unique)
  then obtain n where "n \<in> set names" "name = Replace_wildcard n" by blast
  with assms(2) set_Replace_wildcard [of n] show "ESC \<notin> set name" by blast
qed

lemma every_ESC_formatStandard:
  assumes "visits_each_key_once e" "no_ESC_in_fields e output"
  shows "every_ESC_starts_sequence (fst (formatStandard e w output))"
proof -
  let ?cert = "CertificateResponse output"
  have prefix: "ESC \<notin> set (outputPrefix_of w output)"
    using assms(2) by (simp add: no_ESC_in_fields_def outputPrefix_of_def ESC_def)
  have "\<forall>name\<in>set (included_names w ?cert). ESC \<notin> set name"
    using assms(2) by (auto simp add: no_ESC_in_fields_def included_names_def)
  then have names: "\<forall>name\<in>set (uniqueNormalizeCertNames e (included_names w ?cert)).
      ESC \<notin> set name"
    using assms(1) by (intro no_ESC_names)
  have line: "every_ESC_starts_sequence (name_line w output name)" if "ESC \<notin> set name" for name
  proof (cases "RespOnly (options w)")
    case True
    have "ESC \<notin> set (name @ [newline])"
      using that by (simp add: ESC_def newline_def)
    with True show ?thesis by (simp add: name_line_def every_ESC_no_ESC)
  next
    case False
    have p: "every_ESC_starts_sequence (outputPrefix_of w output)"
      using prefix by (rule every_ESC_no_ESC)
    have a: "every_ESC_starts_sequence '' [''" and b: "every_ESC_starts_sequence '']''"
      and c: "every_ESC_starts_sequence [newline]"
      by (simp_all add: ESC_def newline_def)
    have n: "every_ESC_starts_sequence (Cyan (aurora w) name)"
      using that by (rule every_ESC_colours)
    have "every_ESC_starts_sequence
            (outputPrefix_of w output @ '' ['' @ Cyan (aurora w) name @ '']'' @ [newline])"
      by (intro every_ESC_append p a n b c)
    with False show ?thesis by (simp only: name_line_def if_False)
  qed
  have 1: "every_ESC_starts_sequence (name_block e w output)"
    unfolding name_block_def using names line by (intro every_ESC_concat) blast
  have 2: "every_ESC_starts_sequence (summary_prefix w output)"
    using prefix by (simp add: summary_prefix_def every_ESC_no_ESC)
  have "ESC \<notin> set (Join_comma (SubjectOrg ?cert))"
    using assms(2) by (intro no_ESC_Join_comma) (simp add: no_ESC_in_fields_def)
  then have 3: "every_ESC_starts_sequence (organization_segment w ?cert)"
    by (simp add: organization_segment_def every_ESC_segment every_ESC_colours)
  have 4: "every_ESC_starts_sequence (version_segment e w output)"
    using assms(2)
    by (simp add: version_segment_def every_ESC_segment every_ESC_colours no_ESC_in_fields_def)
  have 5: "every_ESC_starts_sequence (cipher_segment w output)"
    using assms(2)
    by (simp add: cipher_segment_def every_ESC_segment every_ESC_colours no_ESC_in_fields_def)
  have 6: "every_ESC_starts_sequence (expired_segment w ?cert)"
    by (simp add: expired_segment_def every_ESC_segment every_ESC_colours ESC_def)
  have 7: "every_ESC_starts_sequence (self_signed_segment w ?cert)"
    by (simp add: self_signed_segment_def every_ESC_segment every_ESC_colours ESC_def)
  have "ESC \<notin> set (hash_value ?cert a)" for a
    using assms(2) by (simp add: hash_value_def no_ESC_in_fields_def)
  then have "every_ESC_starts_sequence (hash_segment w ?cert a)" for a
    by (simp add: hash_segment_def every_ESC_segment every_ESC_colours)
  then have 8: "every_ESC_starts_sequence (hash_block w ?cert)"
    unfolding hash_block_def by (intro every_ESC_concat) blast
  show ?thesis
    unfolding formatStandard_eq
    by (intro every_ESC_append 1 2 3 4 5 6 7 8)
qed

lemma Write_text_file:
  assumes "\<not> json w" "outputFile w = Some f"
  shows "outputFile (fst (snd (Write e w stdout event))) =
    Some (snd (fileWriter_Write f (decolorize (TrimSuffix_nl (fst (formatStandard e w event))))))"
proof -
  obtain data where d: "formatStandard e w event = (data, None)"
    using formatStandard_no_error [of e w event]
    by (cases "formatStandard e w event") auto
  show ?thesis
    using assms d by (simp add: Write_def Let_def split: prod.splits)
qed

text \<open>
  Claim C4 says that in text mode the bytes written to the file sink never contain an
  escape sequence. It fails for a certificate whose common name is ESC, bracket, ESC,
  bracket, 0, m, 0, m: the single pass of the stripper leaves ESC, bracket, 0, m in the
  bytes handed to the file sink.
\<close>

theorem Write_file_keeps_escape_sequence:
  "outputFile (fst (snd (Write env_ok (color_file_writer\<lparr>options := no_options\<lparr>CN := True\<rparr>\<rparr>)
                      empty_stdout hostile_response)))
     = Some \<lparr>payloads = [''example.com:443 ['' @ ESC # ''[0m]''], broken = False\<rparr>
   \<and> has_escape_sequence (''example.com:443 ['' @ ESC # ''[0m]'')"
  by code_simp

text \<open>
  Claim C4, amended: for a response whose host, port, names, organizations, upper-cased
  version, cipher and fingerprints contain no ESC byte, the bytes handed to the file sink
  in text mode contain no ESC byte and so no escape sequence, with colours on or off.
\<close>

theorem Write_file_without_ESC:
  assumes "\<not> json w" "outputFile w = Some f" "visits_each_key_once e"
    "no_ESC_in_fields e event"
  shows "\<exists>data. outputFile (fst (snd (Write e w stdout event))) =
                  Some (snd (fileWriter_Write f data))
               \<and> ESC \<notin> set data \<and> \<not> has_escape_sequence data"
proof -
  let ?data = "decolorize (TrimSuffix_nl (fst (formatStandard e w event)))"
  have "every_ESC_starts_sequence (TrimSuffix_nl (fst (formatStandard e w event)))"
    using assms(3,4) by (intro every_ESC_TrimSuffix every_ESC_formatStandard)
  then have "ESC \<notin> set ?data" by (rule no_ESC_decolorize)
  moreover from this have "\<not> has_escape_sequence ?data" by (rule no_ESC_no_sequence)
  moreover have "outputFile (fst (snd (Write e w stdout event))) =
                  Some (snd (fileWriter_Write f ?data))"
    using assms(1,2) by (rule Write_text_file)
  ultimately show ?thesis by blast
qed

theorem Write_file_without_ESC_witness:
  "\<not> json (color_file_writer\<lparr>options := no_options\<lparr>SAN := True, CN := True, TLSVersion := True\<rparr>\<rparr>)
   \<and> outputFile (color_file_writer\<lparr>options := no_options\<lparr>SAN := True, CN := True, TLSVersion := True\<rparr>\<rparr>)
       = Some empty_file
   \<and> visits_each_key_once env_ok
   \<and> no_ESC_in_fields env_ok example_response
   \<and> (\<exists>data. outputFile (fst (snd (Write env_ok
          (color_file_writer\<lparr>options := no_options\<lparr>SAN := True, CN := True, TLSVersion := True\<rparr>\<rparr>)
          empty_stdout example_response))) = Some (snd (fileWriter_Write empty_file data))
        \<and> ESC \<notin> set data \<and> \<not> has_escape_sequence data)"
proof -
  let ?w = "color_file_writer\<lparr>options := no_options\<lparr>SAN := True, CN := True, TLSVersion := True\<rparr>\<rparr>"
  have h1: "\<not> json ?w" by (simp add: color_file_writer_def)
  have h2: "outputFile ?w = Some empty_file" by (simp add: color_file_writer_def empty_file_def)
  have h4: "no_ESC_in_fields env_ok example_response"
    by code_simp
  from Write_file_without_ESC [OF h1 h2 visits_each_key_once_env_ok h4, of empty_stdout]
    h1 h2 visits_each_key_once_env_ok h4
  show ?thesis by blast
qed

section \<open>The line terminator\<close>

lemma ends_with_one_newline_append:
  "ends_with_one_newline (t @ [newline]) \<longleftrightarrow> (t = [] \<or> last t \<noteq> newline)"
  by (simp add: ends_with_one_newline_def)

lemma not_ends_with_newline:
  "(t = [] \<or> last t \<noteq> newline) \<longleftrightarrow> \<not> (\<exists>xs. t = xs @ [newline])"
  by (cases t rule: rev_cases) auto

lemma TrimSuffix_nl_snoc:
  "TrimSuffix_nl (ys @ [c]) = (if c = newline then ys else ys @ [c])"
  by (simp add: TrimSuffix_nl_def)

lemma ends_with_one_newline_TrimSuffix:
  "ends_with_one_newline (TrimSuffix_nl data @ [newline]) \<longleftrightarrow>
     \<not> (\<exists>xs. data = xs @ [newline, newline])"
proof (cases data rule: rev_cases)
  case Nil
  have "ends_with_one_newline ([] @ [newline])"
    by (simp only: ends_with_one_newline_append) simp
  with Nil show ?thesis by (simp add: TrimSuffix_nl_def)
next
  case (snoc ys c)
  show ?thesis
  proof (cases "c = newline")
    case True
    have "(\<exists>xs. ys @ [newline] = xs @ [newline, newline]) \<longleftrightarrow> (\<exists>xs. ys = xs @ [newline])"
    proof
      assume "\<exists>xs. ys @ [newline] = xs @ [newline, newline]"
      then obtain xs where "ys @ [newline] = (xs @ [newline]) @ [newline]" by auto
      then have "ys = xs @ [newline]" by (simp only: append1_eq_conv)
      then show "\<exists>xs. ys = xs @ [newline]" by blast
    next
      assume "\<exists>xs. ys = xs @ [newline]"
      then show "\<exists>xs. ys @ [newline] = xs @ [newline, newline]" by auto
    qed
    moreover have "TrimSuffix_nl data = ys"
      using True snoc by (simp add: TrimSuffix_nl_snoc)
    ultimately show ?thesis
      using True snoc
      by (simp add: ends_with_one_newline_append not_ends_with_newline)
  next
    case False
    have "\<not> (\<exists>xs. ys @ [c] = xs @ [newline, newline])"
    proof
      assume "\<exists>xs. ys @ [c] = xs @ [newline, newline]"
      then obtain xs where "ys @ [c] = (xs @ [newline]) @ [newline]" by auto
      then have "c = newline" by (simp only: append1_eq_conv)
      with False show False by simp
    qed
    moreover have "TrimSuffix_nl data = ys @ [c]"
      using False snoc by (simp add: TrimSuffix_nl_snoc)
    moreover have "ends_with_one_newline ((ys @ [c]) @ [newline])"
      using False by (simp only: ends_with_one_newline_append) simp
    ultimately show ?thesis
      using snoc by (simp only: simp_thms)

  qed
qed

lemma Write_stdout:
  assumes "(if json w then formatJSON e w event else formatStandard e w event) = (data, None)"
    "\<not> failing stdout"
  shows "written (snd (snd (Write e w stdout event))) =
           written stdout @ TrimSuffix_nl data @ [newline]"
  using assms
  by (simp add: Write_def Let_def os_Write_def split: option.splits prod.splits)

text \<open>
  Claim C5 says that all trailing line terminators of the formatted payload are trimmed,
  so that the emitted bytes end with exactly one. The code trims one: with
  \<^verbatim>\<open>RespOnly\<close> and a common name that ends with a line terminator, standard output
  receives two at the end.
\<close>

theorem Write_two_newlines:
  "written (snd (snd (Write env_ok
       (plain_writer\<lparr>options := no_options\<lparr>RespOnly := True, CN := True\<rparr>\<rparr>)
       empty_stdout newline_response)))
     = ''a.example.com'' @ [newline, newline]
   \<and> \<not> ends_with_one_newline (''a.example.com'' @ [newline, newline])"
  by code_simp

text \<open>
  Claim C5, amended: standard output receives the formatted payload with one trailing
  line terminator removed, if there is one, followed by one line terminator; these bytes
  end with exactly one terminator if and only if the payload does not end with two.
\<close>

theorem Write_line_terminator:
  assumes "(if json w then formatJSON e w event else formatStandard e w event) = (data, None)"
    "\<not> failing stdout"
  shows "written (snd (snd (Write e w stdout event))) =
           written stdout @ TrimSuffix_nl data @ [newline]
       \<and> TrimSuffix_nl data =
           (if \<exists>xs. data = xs @ [newline] then butlast data else data)
       \<and> (ends_with_one_newline (TrimSuffix_nl data @ [newline]) \<longleftrightarrow>
            \<not> (\<exists>xs. data = xs @ [newline, newline]))"
proof (intro conjI)
  show "written (snd (snd (Write e w stdout event))) =
           written stdout @ TrimSuffix_nl data @ [newline]"
    using assms by (rule Write_stdout)
next
  have "(data \<noteq> [] \<and> last data = newline) \<longleftrightarrow> (\<exists>xs. data = xs @ [newline])"
    using not_ends_with_newline [of data] by blast
  then show "TrimSuffix_nl data =
           (if \<exists>xs. data = xs @ [newline] then butlast data else data)"
    by (simp add: TrimSuffix_nl_def)
next
  show "ends_with_one_newline (TrimSuffix_nl data @ [newline]) \<longleftrightarrow>
            \<not> (\<exists>xs. data = xs @ [newline, newline])"
    by (rule ends_with_one_newline_TrimSuffix)
qed

theorem Write_line_terminator_witness:
  "(if json (plain_writer\<lparr>options := no_options\<lparr>CN := True\<rparr>\<rparr>)
    then formatJSON env_ok (plain_writer\<lparr>options := no_options\<lparr>CN := True\<rparr>\<rparr>)
           example_response
    else formatStandard env_ok (plain_writer\<lparr>options := no_options\<lparr>CN := True\<rparr>\<rparr>)
           example_response)
     = (''example.com:443 [a.example.com]'' @ [newline], None)
   \<and> \<not> failing empty_stdout
   \<and> written (snd (snd (Write env_ok (plain_writer\<lparr>options := no_options\<lparr>CN := True\<rparr>\<rparr>)
                           empty_stdout example_response)))
       = ''example.com:443 [a.example.com]'' @ [newline]"
proof -
  let ?w = "plain_writer\<lparr>options := no_options\<lparr>CN := True\<rparr>\<rparr>"
  have h1: "(if json ?w then formatJSON env_ok ?w example_response
             else formatStandard env_ok ?w example_response)
     = (''example.com:443 [a.example.com]'' @ [newline], None)"
    by code_simp
  have h2: "\<not> failing empty_stdout" by (simp add: empty_stdout_def)
  from Write_line_terminator [OF h1 h2] h1 h2 show ?thesis
    by (simp add: TrimSuffix_nl_def empty_stdout_def)
qed

end
